theory Spec2Isabelle
  imports Main "HOL-Library.Sublist"
begin

section \<open>The device observer of devil\_server (src/devil/DeviceObserver.cpp)\<close>

subsection \<open>Device records\<close>

text \<open>
  What the observer reads of one udev device: the action tag of a live event, the named
  string properties and the device node. Each accessor of libudev returns a C string or
  a null pointer, so every attribute is an option.
\<close>

record udev_device =
  action :: "string option"
  property :: "string \<rightharpoonup> string"
  devnode :: "string option"

text \<open>
  The code holds a device as a pointer \<^verbatim>\<open>udev_device *\<close>, which is null when
  \<^verbatim>\<open>udev_monitor_receive_device\<close> or \<^verbatim>\<open>udev_device_new_from_syspath\<close> could not
  produce a record. libudev's accessors answer a null pointer with a null pointer.
\<close>

definition udev_device_get_action :: "udev_device option \<Rightarrow> string option" where
  "udev_device_get_action dev = (case dev of None \<Rightarrow> None | Some d \<Rightarrow> action d)"

definition udev_device_get_property_value :: "udev_device option \<Rightarrow> string \<Rightarrow> string option" where
  "udev_device_get_property_value dev key = (case dev of None \<Rightarrow> None | Some d \<Rightarrow> property d key)"

definition udev_device_get_devnode :: "udev_device option \<Rightarrow> string option" where
  "udev_device_get_devnode dev = (case dev of None \<Rightarrow> None | Some d \<Rightarrow> devnode d)"

subsection \<open>Failures\<close>

text \<open>
  \<open>NullString\<close>: a \<^verbatim>\<open>std::string\<close> is constructed from a null pointer (undefined
  behaviour). \<open>OutOfRange\<close>: \<^verbatim>\<open>substr\<close> is called with a position beyond the
  string's size. \<open>BadFunctionCall\<close>: an empty \<^verbatim>\<open>std::function\<close> is called.
\<close>

datatype error = NullString | OutOfRange | BadFunctionCall

subsection \<open>The string operations of the standard library that readId uses\<close>

text \<open>
  \<^verbatim>\<open>p.find_last_of(cs)\<close>: the greatest position of \<open>p\<close> whose character is one of
  the characters of \<open>cs\<close>; \<open>None\<close> stands for \<^verbatim>\<open>npos\<close>.
\<close>

fun find_last_of :: "string \<Rightarrow> string \<Rightarrow> nat option" where
  "find_last_of [] cs = None"
| "find_last_of (c # s) cs =
     (case find_last_of s cs of
        Some i \<Rightarrow> Some (Suc i)
      | None \<Rightarrow> if c \<in> set cs then Some 0 else None)"

text \<open>\<^verbatim>\<open>s.substr(pos)\<close>: the rest of \<open>s\<close> from \<open>pos\<close> on; it throws when \<open>pos\<close> exceeds the size.\<close>

definition substr :: "string \<Rightarrow> nat \<Rightarrow> error + string" where
  "substr s pos = (if pos \<le> length s then Inr (drop pos s) else Inl OutOfRange)"

subsection \<open>readId (lines 102 to 138)\<close>

text \<open>
  \<^verbatim>\<open>npos\<close> is the greatest \<^verbatim>\<open>size_t\<close>, so the test \<^verbatim>\<open>idx < p.size()\<close> fails for it;
  for a position that was found the test is kept as the code has it.
\<close>

definition readId :: "udev_device option \<Rightarrow> string \<Rightarrow> error + string" where
  "readId dev noSerialPrefix =
     (case udev_device_get_property_value dev ''ID_SERIAL_SHORT'' of
        Some serial \<Rightarrow> Inr serial
      | None \<Rightarrow>
          (let ident = ''['' @ noSerialPrefix @ ''/'' in
           case udev_device_get_property_value dev ''ID_PATH_TAG'' of
             Some p \<Rightarrow>
               (case find_last_of p ''usb-'' of
                  Some idx \<Rightarrow>
                    if idx < length p
                    then (case substr p (idx + 1) of
                            Inl e \<Rightarrow> Inl e
                          | Inr t \<Rightarrow> Inr (ident @ t @ '']''))
                    else Inr (ident @ p @ '']'')
                | None \<Rightarrow> Inr (ident @ p @ '']''))
           | None \<Rightarrow>
               (case udev_device_get_devnode dev of
                  None \<Rightarrow> Inl NullString
                | Some n \<Rightarrow>
                    if length n > 5
                    then (case substr n 5 of
                            Inl e \<Rightarrow> Inl e
                          | Inr t \<Rightarrow> Inr (ident @ t @ '']''))
                    else Inr (ident @ n @ '']''))))"

subsection \<open>The path-tag suffix as the specification words it\<close>

text \<open>
  The rest of \<open>p\<close> after the last occurrence of the substring \<open>marker\<close>, and \<open>None\<close>
  when \<open>marker\<close> does not occur in \<open>p\<close>. This follows the specification's sentence, not
  the code; readId is compared with it below.
\<close>

fun after_last_occurrence :: "string \<Rightarrow> string \<Rightarrow> string option" where
  "after_last_occurrence marker [] = (if marker = [] then Some [] else None)"
| "after_last_occurrence marker (c # s) =
     (case after_last_occurrence marker s of
        Some t \<Rightarrow> Some t
      | None \<Rightarrow> if prefix marker (c # s) then Some (drop (length marker) (c # s)) else None)"

subsection \<open>The observer and its configuration\<close>

text \<open>
  The constants \<^verbatim>\<open>target_device::subsystem\<close> and \<^verbatim>\<open>target_device::properties\<close> are
  declared in DeviceObserver.hpp, which is not among the sources: they are parameters
  here. The filter is the ordered sequence of (property name, expected value) pairs.

  Modelled from the spec: the type of the pairs is part of that declaration; the
  comparison of line 147 is taken as the exact string equality of section 4.3, the
  comparison of a C string with a \<^verbatim>\<open>std::string\<close>.
\<close>

record target_device =
  subsystem :: string
  properties :: "(string \<times> string) list"

text \<open>
  A \<^verbatim>\<open>DeviceCallback\<close> is a \<^verbatim>\<open>std::function\<close>: \<open>None\<close> is the empty one, \<open>Some k\<close> the
  \<open>k\<close>-th function of the caller. What the observer does to the outside is a sequence
  of effects: a line written to the log, or a call of a callback with the device path
  and the identity.
\<close>

type_synonym DeviceCallback = "nat option"

datatype effect = Log string | Invoke nat string string

record observer =
  noSerialPrefix :: string
  addCallback :: DeviceCallback
  removeCallback :: DeviceCallback

subsection \<open>invokeIfMatch (lines 141 to 165)\<close>

text \<open>
  The loop over the filter pairs (lines 142 to 162). Its result says whether the loop ran
  to its end (\<open>matched\<close>) or left the function through the \<^verbatim>\<open>return\<close> of line 160, what
  it wrote to the log, and which properties it asked the device for, in order.
  A property the device does not have is read as \<^verbatim>\<open>"[null]"\<close> (line 145).
\<close>

record filter_run =
  looked_up :: "string list"
  logged :: "effect list"
  matched :: bool

definition property_or_null :: "udev_device option \<Rightarrow> string \<Rightarrow> string" where
  "property_or_null dev name =
     (case udev_device_get_property_value dev name of None \<Rightarrow> ''[null]'' | Some p \<Rightarrow> p)"

fun filter_loop :: "string \<Rightarrow> (string \<times> string) list \<Rightarrow> udev_device option \<Rightarrow> filter_run" where
  "filter_loop sub [] dev = \<lparr>looked_up = [], logged = [], matched = True\<rparr>"
| "filter_loop sub ((name, expected) # rest) dev =
     (let p = property_or_null dev name in
      if p \<noteq> expected
      then \<lparr>looked_up = [name],
            logged =
              (if name \<noteq> ''ID_BUS'' \<and> name \<noteq> ''ID_USB_INTERFACE_NUM''
               then [Log (''Ignoring '' @ sub @ '' device event as '' @ name @ '' is '' @ p
                            @ '', but target device has '' @ expected)]
               else []),
            matched = False\<rparr>
      else (let r = filter_loop sub rest dev in r\<lparr>looked_up := name # looked_up r\<rparr>))"

text \<open>
  Modelled from the spec: the signature of \<^verbatim>\<open>DeviceCallback\<close>, declared in
  DeviceObserver.hpp, is (devicePath: string, identity: string), so the call of line 164
  builds a string from the device node, which must not be null.
\<close>

definition invokeIfMatch ::
    "target_device \<Rightarrow> observer \<Rightarrow> DeviceCallback \<Rightarrow> udev_device option \<Rightarrow> error + effect list" where
  "invokeIfMatch td obs callback dev =
     (let r = filter_loop (subsystem td) (properties td) dev in
      if \<not> matched r then Inr (logged r)
      else (case udev_device_get_devnode dev of
              None \<Rightarrow> Inl NullString
            | Some path \<Rightarrow>
                (case readId dev (noSerialPrefix obs) of
                   Inl e \<Rightarrow> Inl e
                 | Inr ident \<Rightarrow>
                     (case callback of
                        None \<Rightarrow> Inl BadFunctionCall
                      | Some f \<Rightarrow> Inr (logged r @ [Invoke f path ident])))))"

subsection \<open>handleDeviceEvent (lines 87 to 99)\<close>

definition handleDeviceEvent ::
    "target_device \<Rightarrow> observer \<Rightarrow> udev_device option \<Rightarrow> error + effect list" where
  "handleDeviceEvent td obs dev =
     (case udev_device_get_action dev of
        None \<Rightarrow> Inr []
      | Some act \<Rightarrow>
          (let handler =
             (if act = ''add'' then addCallback obs
              else if act = ''remove'' then removeCallback obs
              else None)
           in case handler of
                None \<Rightarrow> Inr []
              | Some f \<Rightarrow> invokeIfMatch td obs handler dev))"

subsection \<open>stop and receiveEvent (lines 68 to 85)\<close>

text \<open>
  The state the event loop runs in: whether the stream \<^verbatim>\<open>udevStream_\<close> has been closed,
  the events queued in the notification channel (oldest first), whether a wait is
  outstanding, what the observer has done to the outside so far, and whether an
  earlier step failed.
\<close>

datatype loop_state = Armed | Terminated

record observer_state =
  closed :: bool
  pending :: "udev_device list"
  loop :: loop_state
  effects :: "effect list"
  failure :: "error option"

definition stop :: "observer_state \<Rightarrow> observer_state" where
  "stop s = s\<lparr>closed := True\<rparr>"

text \<open>
  Modelled from the spec: the notification channel is libudev's and the reactor's, not
  part of the sources. Its "receive next event" operation (section 6),
  \<^verbatim>\<open>udev_monitor_receive_device\<close>, hands out the oldest queued event, and a null pointer
  when there is nothing to read: when no event is queued, or when the channel has been
  closed (section 4.2: the stop operation closes the channel).
\<close>

definition udev_monitor_receive_device ::
    "observer_state \<Rightarrow> udev_device option \<times> observer_state" where
  "udev_monitor_receive_device s =
     (if closed s then (None, s)
      else (case pending s of
              [] \<Rightarrow> (None, s)
            | d # later \<Rightarrow> (Some d, s\<lparr>pending := later\<rparr>)))"

text \<open>
  The completion handler of the wait (the lambda of lines 73 to 84), called by the reactor
  with the error code of the wait. It either leaves the callback chain or handles one
  event and calls receiveEvent again, which arms the next wait.
\<close>

datatype error_code = success | bad_file_descriptor | operation_aborted

definition receiveEvent_handler ::
    "target_device \<Rightarrow> observer \<Rightarrow> error_code \<Rightarrow> observer_state \<Rightarrow> observer_state" where
  "receiveEvent_handler td obs ec s =
     (if ec = bad_file_descriptor then s\<lparr>loop := Terminated\<rparr>
      else (let (dev, s') = udev_monitor_receive_device s in
            case handleDeviceEvent td obs dev of
              Inl e \<Rightarrow> s'\<lparr>loop := Terminated, failure := Some e\<rparr>
            | Inr out \<Rightarrow> s'\<lparr>loop := Armed, effects := effects s' @ out\<rparr>))"

text \<open>
  Modelled from the spec: the reactor (Boost.Asio) is not part of the sources. Sections 3
  and 4.2: once the stop operation has closed the channel, the next or the currently
  pending wait resolves with the channel-closed condition. This is the code
  \<^verbatim>\<open>bad_file_descriptor\<close> that line 74 tests, and that the comment of line 75 reads as
  "stop() has been called". On an open channel the code \<open>ec\<close> is the reactor's own.
\<close>

definition async_read_some :: "observer_state \<Rightarrow> error_code \<Rightarrow> error_code" where
  "async_read_some s ec = (if closed s then bad_file_descriptor else ec)"

text \<open>
  What can happen to a started observer, one step at a time: an event arrives in the
  channel, stop is called, or the outstanding wait resolves and the reactor runs the
  handler. The reactor is single-threaded, so the steps do not overlap. For the open
  channel every sequence of codes is considered.
\<close>

datatype step = Arrive udev_device | Stop | Complete error_code

fun reactor_step :: "target_device \<Rightarrow> observer \<Rightarrow> observer_state \<Rightarrow> step \<Rightarrow> observer_state" where
  "reactor_step td obs s (Arrive d) = s\<lparr>pending := pending s @ [d]\<rparr>"
| "reactor_step td obs s Stop = stop s"
| "reactor_step td obs s (Complete ec) =
     (if loop s = Armed then receiveEvent_handler td obs (async_read_some s ec) s else s)"

fun reactor_run ::
    "target_device \<Rightarrow> observer \<Rightarrow> observer_state \<Rightarrow> step list \<Rightarrow> observer_state" where
  "reactor_run td obs s [] = s"
| "reactor_run td obs s (a # later) = reactor_run td obs (reactor_step td obs s a) later"

subsection \<open>Example records\<close>

text \<open>
  The records and the configuration of the specification's end-to-end scenarios, and a
  few more, on which the theorems below are evaluated.
\<close>

definition acme_target :: target_device where
  "acme_target =
     \<lparr>subsystem = ''tty'',
      properties = [(''ID_BUS'', ''usb''), (''ID_VENDOR'', ''Acme''), (''ID_MODEL'', ''[null]'')]\<rparr>"

definition evil_observer :: observer where
  "evil_observer = \<lparr>noSerialPrefix = ''evil'', addCallback = Some 0, removeCallback = Some 1\<rparr>"

definition serial_device :: udev_device where
  "serial_device =
     \<lparr>action = Some ''add'',
      property = [''ID_BUS'' \<mapsto> ''usb'', ''ID_VENDOR'' \<mapsto> ''Acme'',
                  ''ID_SERIAL_SHORT'' \<mapsto> ''ABC123'',
                  ''ID_PATH_TAG'' \<mapsto> ''pci-0000:00:14.0-usb-0:3:1.0''],
      devnode = Some ''/dev/ttyUSB0''\<rparr>"

definition empty_serial_device :: udev_device where
  "empty_serial_device =
     \<lparr>action = Some ''add'',
      property = [''ID_SERIAL_SHORT'' \<mapsto> [], ''ID_PATH_TAG'' \<mapsto> ''pci-0000:00:14.0-usb-0:3:1.0''],
      devnode = Some ''/dev/ttyUSB0''\<rparr>"

definition path_tag_device :: udev_device where
  "path_tag_device =
     \<lparr>action = Some ''add'',
      property = [''ID_PATH_TAG'' \<mapsto> ''pci-0000:00:14.0-usb-0:3:1.0''],
      devnode = Some ''/dev/ttyUSB0''\<rparr>"

definition port_device :: udev_device where
  "port_device =
     \<lparr>action = Some ''add'',
      property = [''ID_PATH_TAG'' \<mapsto> ''pci-0000:00:14.0-usb-0:3:1.0-port0''],
      devnode = Some ''/dev/ttyUSB0''\<rparr>"

definition node_only_device :: "string \<Rightarrow> udev_device" where
  "node_only_device n = \<lparr>action = Some ''add'', property = Map.empty, devnode = Some n\<rparr>"

definition bare_device :: udev_device where
  "bare_device = \<lparr>action = Some ''add'', property = Map.empty, devnode = None\<rparr>"

definition nodeless_device :: udev_device where
  "nodeless_device =
     \<lparr>action = Some ''add'',
      property = [''ID_BUS'' \<mapsto> ''usb'', ''ID_VENDOR'' \<mapsto> ''Acme''],
      devnode = None\<rparr>"

definition other_device :: udev_device where
  "other_device =
     \<lparr>action = Some ''add'',
      property = [''ID_BUS'' \<mapsto> ''usb'', ''ID_VENDOR'' \<mapsto> ''OtherCo''],
      devnode = Some ''/dev/ttyUSB1''\<rparr>"

definition serial_console :: udev_device where
  "serial_console =
     \<lparr>action = Some ''add'', property = [''ID_VENDOR'' \<mapsto> ''Acme''], devnode = Some ''/dev/ttyS0''\<rparr>"

definition change_event :: udev_device where
  "change_event =
     \<lparr>action = Some ''change'',
      property = [''ID_BUS'' \<mapsto> ''usb'', ''ID_VENDOR'' \<mapsto> ''Acme'',
                  ''ID_SERIAL_SHORT'' \<mapsto> ''ABC123''],
      devnode = Some ''/dev/ttyUSB0''\<rparr>"

definition waiting_state :: observer_state where
  "waiting_state =
     \<lparr>closed = False, pending = [serial_device], loop = Armed, effects = [], failure = None\<rparr>"

section \<open>Properties\<close>

subsection \<open>The string operations\<close>

lemma find_last_of_less: "find_last_of p cs = Some idx \<Longrightarrow> idx < length p"
  by (induction p arbitrary: idx) (auto split: option.splits if_splits)

lemma find_last_of_None: "find_last_of p cs = None \<longleftrightarrow> set p \<inter> set cs = {}"
  by (induction p) (auto split: option.splits)

lemma find_last_of_Some:
  "find_last_of p cs = Some idx \<Longrightarrow> p ! idx \<in> set cs \<and> set (drop (Suc idx) p) \<inter> set cs = {}"
proof (induction p arbitrary: idx)
  case Nil
  then show ?case by simp
next
  case (Cons c s)
  show ?case
  proof (cases "find_last_of s cs")
    case None
    with Cons.prems have "idx = 0" "c \<in> set cs"
      by (auto split: if_splits)
    moreover from None have "set s \<inter> set cs = {}"
      by (simp add: find_last_of_None)
    ultimately show ?thesis by simp
  next
    case (Some i)
    with Cons.prems have "idx = Suc i" by simp
    with Cons.IH [OF Some] show ?thesis by simp
  qed
qed

lemma find_last_of_append:
  "c \<in> set cs \<Longrightarrow> set t \<inter> set cs = {} \<Longrightarrow> find_last_of (xs @ c # t) cs = Some (length xs)"
proof (induction xs)
  case Nil
  then have "find_last_of t cs = None" by (simp add: find_last_of_None)
  with Nil show ?case by simp
next
  case (Cons x xs)
  then show ?case by simp
qed

lemma after_last_occurrence_None:
  "after_last_occurrence m p = None \<longleftrightarrow> (\<forall>pre t. p \<noteq> pre @ m @ t)"
proof (induction p)
  case Nil
  then show ?case by auto
next
  case (Cons c s)
  have "(\<exists>pre t. c # s = pre @ m @ t) \<longleftrightarrow> prefix m (c # s) \<or> (\<exists>pre t. s = pre @ m @ t)"
  proof
    assume "\<exists>pre t. c # s = pre @ m @ t"
    then obtain pre t where eq: "c # s = pre @ m @ t" by blast
    show "prefix m (c # s) \<or> (\<exists>pre t. s = pre @ m @ t)"
    proof (cases pre)
      case Nil
      with eq show ?thesis by (auto simp: prefix_def)
    next
      case (Cons a pre')
      with eq have "s = pre' @ m @ t" by simp
      then show ?thesis by blast
    qed
  next
    assume "prefix m (c # s) \<or> (\<exists>pre t. s = pre @ m @ t)"
    then show "\<exists>pre t. c # s = pre @ m @ t"
    proof
      assume "prefix m (c # s)"
      then obtain t where "c # s = m @ t" by (auto simp: prefix_def)
      then have "c # s = [] @ m @ t" by simp
      then show ?thesis by blast
    next
      assume "\<exists>pre t. s = pre @ m @ t"
      then obtain pre t where "s = pre @ m @ t" by blast
      then have "c # s = (c # pre) @ m @ t" by simp
      then show ?thesis by blast
    qed
  qed
  with Cons.IH show ?case
    by (auto split: option.splits)
qed

lemma after_last_occurrence_Some:
  "after_last_occurrence m p = Some t \<Longrightarrow>
   \<exists>pre. p = pre @ m @ t \<and> (\<forall>pre' t'. p = pre' @ m @ t' \<longrightarrow> length pre' \<le> length pre)"
proof (induction p)
  case Nil
  then show ?case by (auto split: if_splits)
next
  case (Cons c s)
  show ?case
  proof (cases "after_last_occurrence m s")
    case (Some u)
    with Cons.prems have "u = t" by simp
    with Cons.IH Some obtain pre where
      pre: "s = pre @ m @ t" "\<forall>pre' t'. s = pre' @ m @ t' \<longrightarrow> length pre' \<le> length pre"
      by blast
    have "length pre' \<le> length (c # pre)" if "c # s = pre' @ m @ t'" for pre' t'
    proof (cases pre')
      case Nil
      then show ?thesis by simp
    next
      case (Cons a q)
      with that have "s = q @ m @ t'" by simp
      with pre(2) have "length q \<le> length pre" by blast
      with Cons show ?thesis by simp
    qed
    moreover from pre(1) have "c # s = (c # pre) @ m @ t" by simp
    ultimately show ?thesis by blast
  next
    case None
    with Cons.prems have p: "prefix m (c # s)" and t: "t = drop (length m) (c # s)"
      by (auto split: if_splits)
    from p obtain r where r: "c # s = m @ r" by (auto simp: prefix_def)
    with t have "t = r" by (metis append_eq_conv_conj)
    with r have eq: "c # s = [] @ m @ t" by simp
    have "length pre' \<le> length ([]::string)" if "c # s = pre' @ m @ t'" for pre' t'
    proof (cases pre')
      case Nil
      then show ?thesis by simp
    next
      case (Cons a q)
      with that have "s = q @ m @ t'" by simp
      moreover from None have "\<forall>pre t. s \<noteq> pre @ m @ t"
        by (simp add: after_last_occurrence_None)
      ultimately show ?thesis by blast
    qed
    with eq show ?thesis by blast
  qed
qed

lemma substr_ok: "pos \<le> length s \<Longrightarrow> substr s pos = Inr (drop pos s)"
  by (simp add: substr_def)

subsection \<open>readId: the serial number\<close>

lemma readId_present_serial:
  "udev_device_get_property_value dev ''ID_SERIAL_SHORT'' = Some serial \<Longrightarrow>
   readId dev pfx = Inr serial"
  by (simp add: readId_def)

text \<open>
  C3: a record whose ID\_SERIAL\_SHORT property is present and not empty gets that value
  as its identity, unchanged, and whatever the path tag and the device node of the record
  are (present or absent), the result is the same.
\<close>

theorem readId_serial_verbatim:
  assumes "udev_device_get_property_value (Some d) ''ID_SERIAL_SHORT'' = Some serial"
    and "serial \<noteq> []"
  shows "readId (Some d) pfx = Inr serial \<and>
         (\<forall>tag node.
            readId (Some (d\<lparr>property := (property d)(''ID_PATH_TAG'' := tag), devnode := node\<rparr>)) pfx
              = Inr serial)"
proof -
  have "udev_device_get_property_value
          (Some (d\<lparr>property := (property d)(''ID_PATH_TAG'' := tag), devnode := node\<rparr>))
          ''ID_SERIAL_SHORT'' = Some serial" for tag node
    using assms(1) by (simp add: udev_device_get_property_value_def)
  then show ?thesis
    using assms(1) by (simp add: readId_present_serial)
qed

theorem readId_serial_verbatim_witness:
  "readId (Some serial_device) ''evil'' = Inr ''ABC123'' \<and>
   readId (Some (serial_device\<lparr>property := (property serial_device)(''ID_PATH_TAG'' := None),
                               devnode := Some ''/dev/ttyACM3''\<rparr>)) ''evil'' = Inr ''ABC123''"
proof -
  have h: "udev_device_get_property_value (Some serial_device) ''ID_SERIAL_SHORT'' = Some ''ABC123''"
    by (simp add: udev_device_get_property_value_def serial_device_def)
  have n: "''ABC123'' \<noteq> []" by simp
  from readId_serial_verbatim [OF h n, of "''evil''"] show ?thesis by blast
qed

text \<open>
  C9: a serial property that is present but empty is returned as it is, the empty string;
  the bracketed identity of the fallback is not produced for it, whatever its suffix.
\<close>

theorem readId_empty_serial:
  assumes "udev_device_get_property_value dev ''ID_SERIAL_SHORT'' = Some []"
  shows "readId dev pfx = Inr [] \<and> (\<forall>suffix. readId dev pfx \<noteq> Inr (''['' @ pfx @ ''/'' @ suffix @ '']''))"
  using assms by (simp add: readId_present_serial)

theorem readId_empty_serial_witness:
  "readId (Some empty_serial_device) ''evil'' = Inr []"
proof -
  have h: "udev_device_get_property_value (Some empty_serial_device) ''ID_SERIAL_SHORT'' = Some []"
    by (simp add: udev_device_get_property_value_def empty_serial_device_def)
  from readId_empty_serial [OF h] show ?thesis by blast
qed

subsection \<open>readId: the device node\<close>

lemma readId_devnode:
  assumes "udev_device_get_property_value dev ''ID_SERIAL_SHORT'' = None"
    and "udev_device_get_property_value dev ''ID_PATH_TAG'' = None"
    and "udev_device_get_devnode dev = Some n"
  shows "readId dev pfx = Inr (''['' @ pfx @ ''/'' @ (if length n > 5 then drop 5 n else n) @ '']'')"
  using assms by (simp add: readId_def substr_def)

text \<open>
  C4: for a record with neither a serial number nor a path tag, whose device node is \<open>n\<close>,
  the identity is \<open>[prefix/suffix]\<close> where the suffix is \<open>n\<close> without its first five
  characters when \<open>n\<close> is longer than five characters, and \<open>n\<close> itself otherwise; in
  particular a node \<open>/dev/name\<close> gives the suffix \<open>name\<close>.
\<close>

theorem readId_devnode_suffix:
  assumes "udev_device_get_property_value dev ''ID_SERIAL_SHORT'' = None"
    and "udev_device_get_property_value dev ''ID_PATH_TAG'' = None"
    and "udev_device_get_devnode dev = Some n"
  shows "(length n > 5 \<longrightarrow> readId dev pfx = Inr (''['' @ pfx @ ''/'' @ drop 5 n @ '']'')) \<and>
         (length n \<le> 5 \<longrightarrow> readId dev pfx = Inr (''['' @ pfx @ ''/'' @ n @ '']'')) \<and>
         (\<forall>name. n = ''/dev/'' @ name \<and> name \<noteq> [] \<longrightarrow>
            readId dev pfx = Inr (''['' @ pfx @ ''/'' @ name @ '']''))"
  using readId_devnode [OF assms, of pfx] by auto

theorem readId_devnode_suffix_witness:
  "readId (Some (node_only_device ''/dev/ttyUSB0'')) ''evil'' = Inr ''[evil/ttyUSB0]'' \<and>
   readId (Some (node_only_device ''/dev/'')) ''evil'' = Inr ''[evil//dev/]''"
proof -
  have s: "udev_device_get_property_value (Some (node_only_device n)) ''ID_SERIAL_SHORT'' = None"
    and t: "udev_device_get_property_value (Some (node_only_device n)) ''ID_PATH_TAG'' = None"
    and d: "udev_device_get_devnode (Some (node_only_device n)) = Some n" for n
    by (simp_all add: udev_device_get_property_value_def udev_device_get_devnode_def
        node_only_device_def)
  from readId_devnode_suffix [OF s t d, of "''/dev/ttyUSB0''" "''evil''"]
  have a: "readId (Some (node_only_device ''/dev/ttyUSB0'')) ''evil'' = Inr ''[evil/ttyUSB0]''"
    by simp
  from readId_devnode_suffix [OF s t d, of "''/dev/''" "''evil''"]
  have b: "readId (Some (node_only_device ''/dev/'')) ''evil'' = Inr ''[evil//dev/]''"
    by simp
  from a b show ?thesis by (intro conjI)
qed

text \<open>
  C10: in the device-node fallback the first five characters of a node longer than five
  characters are removed whatever they are: the node \<open>first5 @ rest\<close> gives the suffix
  \<open>rest\<close> for every \<open>first5\<close> of length five, not only for \<open>/dev/\<close>.
\<close>

theorem readId_strips_by_position:
  assumes "udev_device_get_property_value dev ''ID_SERIAL_SHORT'' = None"
    and "udev_device_get_property_value dev ''ID_PATH_TAG'' = None"
    and "udev_device_get_devnode dev = Some (first5 @ rest)"
    and "length first5 = 5" and "rest \<noteq> []"
  shows "readId dev pfx = Inr (''['' @ pfx @ ''/'' @ rest @ '']'')"
  using readId_devnode [OF assms(1-3), of pfx] assms(4,5) by simp

theorem readId_strips_by_position_witness:
  "readId (Some (node_only_device ''/tmp/ttyUSB0'')) ''evil'' = Inr ''[evil/ttyUSB0]''"
proof -
  have s: "udev_device_get_property_value (Some (node_only_device ''/tmp/ttyUSB0'')) ''ID_SERIAL_SHORT''
             = None"
    and t: "udev_device_get_property_value (Some (node_only_device ''/tmp/ttyUSB0'')) ''ID_PATH_TAG''
             = None"
    and d: "udev_device_get_devnode (Some (node_only_device ''/tmp/ttyUSB0''))
             = Some (''/tmp/'' @ ''ttyUSB0'')"
    by (simp_all add: udev_device_get_property_value_def udev_device_get_devnode_def
        node_only_device_def)
  have l: "length ''/tmp/'' = 5" and r: "''ttyUSB0'' \<noteq> []"
    by simp_all
  from readId_strips_by_position [OF s t d l r, of "''evil''"] show ?thesis
    by simp
qed

subsection \<open>readId: when it returns\<close>

text \<open>
  readId fails in exactly one case: the record has no serial number, no path tag and no
  device node, where line 128 builds a string from a null pointer.
\<close>

lemma readId_Inl_iff:
  "readId dev pfx = Inl e \<longleftrightarrow>
     e = NullString \<and> udev_device_get_property_value dev ''ID_SERIAL_SHORT'' = None \<and>
     udev_device_get_property_value dev ''ID_PATH_TAG'' = None \<and> udev_device_get_devnode dev = None"
  by (auto simp: readId_def substr_def Let_def dest: find_last_of_less split: option.splits)

lemma readId_with_devnode:
  "udev_device_get_devnode dev = Some path \<Longrightarrow> \<exists>ident. readId dev pfx = Inr ident"
  by (auto simp: readId_def substr_def Let_def dest: find_last_of_less split: option.splits)



text \<open>
  C5: readId is claimed to return an identity for every record. For the record with no
  serial number, no path tag and no device node it does not: the null device node reaches
  the string constructor of line 128.
\<close>

theorem readId_null_devnode:
  "readId (Some bare_device) ''evil'' = Inl NullString"
  by (simp add: readId_def udev_device_get_property_value_def udev_device_get_devnode_def
      bare_device_def)

subsection \<open>readId: the path tag\<close>

text \<open>
  What the code computes from a path tag: the rest after the last character that is one
  of \<open>u\<close>, \<open>s\<close>, \<open>b\<close> or \<open>-\<close>, and the whole tag when it has none of them.
\<close>

lemma readId_path_tag:
  assumes "udev_device_get_property_value dev ''ID_SERIAL_SHORT'' = None"
    and "udev_device_get_property_value dev ''ID_PATH_TAG'' = Some p"
  shows "readId dev pfx =
           Inr (''['' @ pfx @ ''/'' @
                (case find_last_of p ''usb-'' of Some idx \<Rightarrow> drop (Suc idx) p | None \<Rightarrow> p) @ '']'')"
  using assms
  by (auto simp: readId_def substr_def Let_def dest: find_last_of_less split: option.splits)

lemma readId_path_tag_agrees:
  assumes "udev_device_get_property_value dev ''ID_SERIAL_SHORT'' = None"
    and "udev_device_get_property_value dev ''ID_PATH_TAG'' = Some p"
    and "after_last_occurrence ''usb-'' p = Some t"
    and "set t \<inter> set ''usb-'' = {}"
  shows "readId dev pfx = Inr (''['' @ pfx @ ''/'' @ t @ '']'')"
proof -
  from assms(3) obtain pre where "p = pre @ ''usb-'' @ t"
    using after_last_occurrence_Some by blast
  then have p: "p = (pre @ ''usb'') @ CHR ''-'' # t" by simp
  have "find_last_of ((pre @ ''usb'') @ CHR ''-'' # t) ''usb-'' = Some (length (pre @ ''usb''))"
    using assms(4) by (intro find_last_of_append) simp_all
  with p have "find_last_of p ''usb-'' = Some (length (pre @ ''usb''))" by simp
  moreover have "drop (Suc (length (pre @ ''usb''))) p = t"
    unfolding p by simp
  ultimately show ?thesis
    using readId_path_tag [OF assms(1,2), of pfx] by simp
qed

lemma readId_path_tag_example:
  "readId (Some path_tag_device) ''evil'' = Inr ''[evil/0:3:1.0]''"
  by (simp add: readId_def udev_device_get_property_value_def path_tag_device_def substr_def)

text \<open>
  C1: the suffix is claimed to be the rest of the path tag after the last occurrence of
  the substring \<open>usb-\<close>. The two agree when that rest has none of the four characters
  (\<open>readId_path_tag_agrees\<close>); for the tag \<open>pci-0000:00:14.0-usb-0:3:1.0-port0\<close> the rest
  after the last \<open>usb-\<close> is \<open>0:3:1.0-port0\<close>, and readId gives the suffix \<open>port0\<close>.
\<close>

theorem readId_path_tag_last_character:
  "udev_device_get_property_value (Some port_device) ''ID_SERIAL_SHORT'' = None \<and>
   udev_device_get_property_value (Some port_device) ''ID_PATH_TAG''
     = Some ''pci-0000:00:14.0-usb-0:3:1.0-port0'' \<and>
   after_last_occurrence ''usb-'' ''pci-0000:00:14.0-usb-0:3:1.0-port0'' = Some ''0:3:1.0-port0'' \<and>
   readId (Some port_device) ''evil'' = Inr ''[evil/port0]''"
  by (simp add: readId_def udev_device_get_property_value_def port_device_def substr_def)

subsection \<open>invokeIfMatch: the filter loop\<close>

lemma filter_loop_equal:
  "property_or_null dev name = expected \<Longrightarrow>
   filter_loop sub ((name, expected) # rest) dev =
     (filter_loop sub rest dev)\<lparr>looked_up := name # looked_up (filter_loop sub rest dev)\<rparr>"
  by (simp add: Let_def)

lemma filter_loop_unequal:
  "property_or_null dev name \<noteq> expected \<Longrightarrow>
   filter_loop sub ((name, expected) # rest) dev =
     \<lparr>looked_up = [name],
      logged =
        (if name \<noteq> ''ID_BUS'' \<and> name \<noteq> ''ID_USB_INTERFACE_NUM''
         then [Log (''Ignoring '' @ sub @ '' device event as '' @ name @ '' is ''
                      @ property_or_null dev name @ '', but target device has '' @ expected)]
         else []),
      matched = False\<rparr>"
  by (simp add: Let_def)

declare filter_loop.simps(2) [simp del]

lemma filter_loop_matched_iff:
  "matched (filter_loop sub F dev) \<longleftrightarrow> (\<forall>(name, expected) \<in> set F. property_or_null dev name = expected)"
proof (induction F)
  case Nil
  then show ?case by simp
next
  case (Cons x F)
  obtain name expected where x: "x = (name, expected)" by (cases x)
  show ?case
  proof (cases "property_or_null dev name = expected")
    case True
    with Cons.IH show ?thesis
      unfolding x by (simp add: filter_loop_equal del: filter_loop.simps)
  next
    case False
    then show ?thesis
      unfolding x by (simp add: filter_loop_unequal del: filter_loop.simps)
  qed
qed

lemma filter_loop_matched:
  "matched (filter_loop sub F dev) \<Longrightarrow>
   filter_loop sub F dev = \<lparr>looked_up = map fst F, logged = [], matched = True\<rparr>"
proof (induction F)
  case Nil
  then show ?case by simp
next
  case (Cons x F)
  obtain name expected where x: "x = (name, expected)" by (cases x)
  from Cons.prems have eq: "property_or_null dev name = expected"
    unfolding x filter_loop_matched_iff by simp
  with Cons.prems have "matched (filter_loop sub F dev)"
    unfolding x by (simp add: filter_loop_equal del: filter_loop.simps)
  with Cons.IH eq show ?case
    unfolding x by (simp add: filter_loop_equal del: filter_loop.simps)
qed

lemma filter_loop_first_mismatch:
  assumes "\<forall>(n, v) \<in> set pre. property_or_null dev n = v"
    and "property_or_null dev name \<noteq> expected"
  shows "filter_loop sub (pre @ (name, expected) # rest) dev =
           \<lparr>looked_up = map fst pre @ [name],
            logged =
              (if name \<noteq> ''ID_BUS'' \<and> name \<noteq> ''ID_USB_INTERFACE_NUM''
               then [Log (''Ignoring '' @ sub @ '' device event as '' @ name @ '' is ''
                            @ property_or_null dev name @ '', but target device has '' @ expected)]
               else []),
            matched = False\<rparr>"
  using assms(1)
proof (induction pre)
  case Nil
  from assms(2) show ?case
    by (simp add: filter_loop_unequal del: filter_loop.simps)
next
  case (Cons x pre)
  obtain n v where x: "x = (n, v)" by (cases x)
  from Cons.prems have "property_or_null dev n = v" and "\<forall>(n, v) \<in> set pre. property_or_null dev n = v"
    unfolding x by simp_all
  with Cons.IH show ?case
    unfolding x by (simp add: filter_loop_equal del: filter_loop.simps)
qed

lemma logged_no_Invoke: "Invoke g a b \<notin> set (logged (filter_loop sub F dev))"
proof (induction F)
  case Nil
  then show ?case by simp
next
  case (Cons x F)
  obtain name expected where x: "x = (name, expected)" by (cases x)
  from Cons.IH show ?case
    unfolding x
    by (cases "property_or_null dev name = expected")
       (simp_all add: filter_loop_equal filter_loop_unequal del: filter_loop.simps)
qed

lemma first_mismatch_exists:
  assumes "\<not> (\<forall>(n, v) \<in> set F. property_or_null dev n = v)"
  shows "\<exists>pre name expected rest.
           F = pre @ (name, expected) # rest \<and> (\<forall>(n, v) \<in> set pre. property_or_null dev n = v) \<and>
           property_or_null dev name \<noteq> expected"
  using assms
proof (induction F)
  case Nil
  then show ?case by simp
next
  case (Cons x F)
  obtain n v where x: "x = (n, v)" by (cases x)
  show ?case
  proof (cases "property_or_null dev n = v")
    case False
    have "x # F = [] @ (n, v) # F" and "\<forall>(n, v) \<in> set []. property_or_null dev n = v"
      by (simp_all add: x)
    with False show ?thesis by blast
  next
    case True
    with Cons.prems have "\<not> (\<forall>(n, v) \<in> set F. property_or_null dev n = v)"
      by (simp add: x)
    with Cons.IH obtain pre name expected rest where
      F: "F = pre @ (name, expected) # rest"
      and pre: "\<forall>(n, v) \<in> set pre. property_or_null dev n = v"
      and ne: "property_or_null dev name \<noteq> expected"
      by blast
    from F have "x # F = (x # pre) @ (name, expected) # rest" by simp
    moreover from pre True have "\<forall>(n, v) \<in> set (x # pre). property_or_null dev n = v"
      by (simp add: x)
    ultimately show ?thesis using ne by blast
  qed
qed

lemma invokeIfMatch_unmatched:
  "\<not> matched (filter_loop (subsystem td) (properties td) dev) \<Longrightarrow>
   invokeIfMatch td obs callback dev = Inr (logged (filter_loop (subsystem td) (properties td) dev))"
  by (simp add: invokeIfMatch_def Let_def)

lemma invokeIfMatch_matched:
  assumes "matched (filter_loop (subsystem td) (properties td) dev)"
    and "udev_device_get_devnode dev = Some path"
    and "readId dev (noSerialPrefix obs) = Inr ident"
  shows "invokeIfMatch td obs (Some f) dev = Inr [Invoke f path ident]"
proof -
  have "logged (filter_loop (subsystem td) (properties td) dev) = []"
    by (simp add: filter_loop_matched [OF assms(1)])
  with assms show ?thesis
    by (simp add: invokeIfMatch_def Let_def)
qed


lemma invokeIfMatch_with_devnode:
  assumes path: "udev_device_get_devnode dev = Some path"
    and ident: "readId dev (noSerialPrefix obs) = Inr ident"
  shows "invokeIfMatch td obs (Some f) dev =
           (if \<forall>(name, expected) \<in> set (properties td). property_or_null dev name = expected
            then Inr [Invoke f path ident]
            else Inr (logged (filter_loop (subsystem td) (properties td) dev)))"
proof (cases "matched (filter_loop (subsystem td) (properties td) dev)")
  case True
  then have "\<forall>(name, expected) \<in> set (properties td). property_or_null dev name = expected"
    by (rule filter_loop_matched_iff [THEN iffD1])
  then show ?thesis
    by (simp only: if_P invokeIfMatch_matched [OF True path ident] simp_thms)
next
  case False
  then have "\<not> (\<forall>(name, expected) \<in> set (properties td). property_or_null dev name = expected)"
    unfolding filter_loop_matched_iff .
  then show ?thesis
    by (simp only: if_not_P invokeIfMatch_unmatched [OF False] simp_thms)
qed


lemma invokeIfMatch_first_mismatch:
  assumes F: "properties td = pre @ (name, expected) # rest"
    and pre: "\<forall>(n, v) \<in> set pre. property_or_null dev n = v"
    and ne: "property_or_null dev name \<noteq> expected"
  shows "looked_up (filter_loop (subsystem td) (properties td) dev) = map fst pre @ [name]"
    and "invokeIfMatch td obs callback dev =
           Inr (if name \<noteq> ''ID_BUS'' \<and> name \<noteq> ''ID_USB_INTERFACE_NUM''
                then [Log (''Ignoring '' @ subsystem td @ '' device event as '' @ name @ '' is ''
                             @ property_or_null dev name @ '', but target device has '' @ expected)]
                else [])"
    and "invokeIfMatch td obs callback dev =
           invokeIfMatch (td\<lparr>properties := pre @ [(name, expected)]\<rparr>) obs callback dev"
proof -
  note run = filter_loop_first_mismatch [OF pre ne, of "subsystem td"]
  show "looked_up (filter_loop (subsystem td) (properties td) dev) = map fst pre @ [name]"
    unfolding F by (simp only: run udev_device.simps filter_run.simps)
  have m: "\<not> matched (filter_loop (subsystem td) (properties td) dev)"
    unfolding F by (simp only: run filter_run.simps simp_thms)
  show "invokeIfMatch td obs callback dev =
           Inr (if name \<noteq> ''ID_BUS'' \<and> name \<noteq> ''ID_USB_INTERFACE_NUM''
                then [Log (''Ignoring '' @ subsystem td @ '' device event as '' @ name @ '' is ''
                             @ property_or_null dev name @ '', but target device has '' @ expected)]
                else [])"
    unfolding invokeIfMatch_unmatched [OF m] F by (simp only: run filter_run.simps)
  have "filter_loop (subsystem td) (pre @ (name, expected) # rest) dev
          = filter_loop (subsystem td) (pre @ [(name, expected)]) dev"
    by (simp only: run)
  then show "invokeIfMatch td obs callback dev =
           invokeIfMatch (td\<lparr>properties := pre @ [(name, expected)]\<rparr>) obs callback dev"
    unfolding invokeIfMatch_def F by simp
qed


text \<open>
  What invokeIfMatch does in general. The filter loop runs to its end exactly when every
  pair of the filter equals the record's property of that name, an absent property read as
  \<open>[null]\<close>. For a record with a device node the callback is then called, once, with the
  node and the identity, and is not called otherwise. When some pair fails, the loop stops
  at the first failing pair in declared order: it has looked up the names up to that pair
  and no later one, and the outcome is the one of the filter cut after that pair.
\<close>

lemma invokeIfMatch_all_pairs_equal:
  "(matched (filter_loop (subsystem td) (properties td) dev) \<longleftrightarrow>
      (\<forall>(name, expected) \<in> set (properties td). property_or_null dev name = expected)) \<and>
   (udev_device_get_devnode dev = Some path \<longrightarrow>
      (\<exists>ident. readId dev (noSerialPrefix obs) = Inr ident) \<and>
      (\<forall>ident. readId dev (noSerialPrefix obs) = Inr ident \<longrightarrow>
         invokeIfMatch td obs (Some f) dev =
           (if \<forall>(name, expected) \<in> set (properties td). property_or_null dev name = expected
            then Inr [Invoke f path ident]
            else Inr (logged (filter_loop (subsystem td) (properties td) dev)))) \<and>
      (\<forall>g a b. Invoke g a b \<notin> set (logged (filter_loop (subsystem td) (properties td) dev)))) \<and>
   (\<not> (\<forall>(name, expected) \<in> set (properties td). property_or_null dev name = expected) \<longrightarrow>
      (\<exists>pre name expected rest.
         properties td = pre @ (name, expected) # rest \<and>
         (\<forall>(n, v) \<in> set pre. property_or_null dev n = v) \<and>
         property_or_null dev name \<noteq> expected \<and>
         looked_up (filter_loop (subsystem td) (properties td) dev) = map fst pre @ [name] \<and>
         (\<forall>callback. invokeIfMatch td obs callback dev =
            invokeIfMatch (td\<lparr>properties := pre @ [(name, expected)]\<rparr>) obs callback dev)))"
    (is "?A \<and> ?B \<and> ?C")
proof (intro conjI)
  show ?A by (rule filter_loop_matched_iff)
next
  show ?B
  proof (intro impI conjI allI)
    assume "udev_device_get_devnode dev = Some path"
    then show "\<exists>ident. readId dev (noSerialPrefix obs) = Inr ident"
      by (rule readId_with_devnode)
  next
    fix ident
    assume "udev_device_get_devnode dev = Some path" and "readId dev (noSerialPrefix obs) = Inr ident"
    then show "invokeIfMatch td obs (Some f) dev =
           (if \<forall>(name, expected) \<in> set (properties td). property_or_null dev name = expected
            then Inr [Invoke f path ident]
            else Inr (logged (filter_loop (subsystem td) (properties td) dev)))"
      by (rule invokeIfMatch_with_devnode)
  next
    fix g a b
    show "Invoke g a b \<notin> set (logged (filter_loop (subsystem td) (properties td) dev))"
      by (rule logged_no_Invoke)
  qed
next
  show ?C
  proof
    assume "\<not> (\<forall>(name, expected) \<in> set (properties td). property_or_null dev name = expected)"
    then obtain pre name expected rest where
      F: "properties td = pre @ (name, expected) # rest"
      and pre: "\<forall>(n, v) \<in> set pre. property_or_null dev n = v"
      and ne: "property_or_null dev name \<noteq> expected"
      using first_mismatch_exists [of "properties td" dev] by auto
    note fm = invokeIfMatch_first_mismatch [OF F pre ne]
    from fm(3) have "\<forall>callback. invokeIfMatch td obs callback dev =
            invokeIfMatch (td\<lparr>properties := pre @ [(name, expected)]\<rparr>) obs callback dev"
      by (intro allI)
    with F pre ne fm(1) show "\<exists>pre name expected rest.
         properties td = pre @ (name, expected) # rest \<and>
         (\<forall>(n, v) \<in> set pre. property_or_null dev n = v) \<and>
         property_or_null dev name \<noteq> expected \<and>
         looked_up (filter_loop (subsystem td) (properties td) dev) = map fst pre @ [name] \<and>
         (\<forall>callback. invokeIfMatch td obs callback dev =
            invokeIfMatch (td\<lparr>properties := pre @ [(name, expected)]\<rparr>) obs callback dev)"
      by (intro exI conjI)
  qed
qed


lemma invokeIfMatch_all_pairs_equal_example:
  "invokeIfMatch acme_target evil_observer (Some 0) (Some serial_device)
     = Inr [Invoke 0 ''/dev/ttyUSB0'' ''ABC123''] \<and>
   looked_up (filter_loop ''tty'' (properties acme_target) (Some other_device)) = [''ID_BUS'', ''ID_VENDOR''] \<and>
   invokeIfMatch acme_target evil_observer (Some 0) (Some other_device)
     = Inr [Log ''Ignoring tty device event as ID_VENDOR is OtherCo, but target device has Acme'']"
proof -
  note defs = acme_target_def evil_observer_def serial_device_def other_device_def
    property_or_null_def udev_device_get_property_value_def udev_device_get_devnode_def
  have node: "udev_device_get_devnode (Some serial_device) = Some ''/dev/ttyUSB0''"
    by (simp add: defs)
  have all: "\<forall>(name, expected) \<in> set (properties acme_target).
               property_or_null (Some serial_device) name = expected"
    by (simp add: defs)
  have ident: "readId (Some serial_device) (noSerialPrefix evil_observer) = Inr ''ABC123''"
    by (simp add: readId_def defs)
  note inst = invokeIfMatch_all_pairs_equal
    [where td = acme_target and obs = evil_observer and f = 0 and dev = "Some serial_device"
       and path = "''/dev/ttyUSB0''"]
  from inst node have "\<forall>ident. readId (Some serial_device) (noSerialPrefix evil_observer) = Inr ident \<longrightarrow>
         invokeIfMatch acme_target evil_observer (Some 0) (Some serial_device) =
           (if \<forall>(name, expected) \<in> set (properties acme_target).
                  property_or_null (Some serial_device) name = expected
            then Inr [Invoke 0 ''/dev/ttyUSB0'' ident]
            else Inr (logged (filter_loop (subsystem acme_target) (properties acme_target) (Some serial_device))))"
    by blast
  with ident have "invokeIfMatch acme_target evil_observer (Some 0) (Some serial_device) =
           (if \<forall>(name, expected) \<in> set (properties acme_target).
                  property_or_null (Some serial_device) name = expected
            then Inr [Invoke 0 ''/dev/ttyUSB0'' ''ABC123'']
            else Inr (logged (filter_loop (subsystem acme_target) (properties acme_target) (Some serial_device))))"
    by blast
  then have a: "invokeIfMatch acme_target evil_observer (Some 0) (Some serial_device)
     = Inr [Invoke 0 ''/dev/ttyUSB0'' ''ABC123'']"
    unfolding if_P [OF all] .
  have b: "looked_up (filter_loop ''tty'' (properties acme_target) (Some other_device)) = [''ID_BUS'', ''ID_VENDOR'']"
    by (simp add: defs filter_loop.simps Let_def)
  have c: "invokeIfMatch acme_target evil_observer (Some 0) (Some other_device)
     = Inr [Log ''Ignoring tty device event as ID_VENDOR is OtherCo, but target device has Acme'']"
    by (simp add: invokeIfMatch_def defs filter_loop.simps Let_def)
  from a b c show ?thesis by (intro conjI)
qed

text \<open>
  C2: the callback is claimed to be called exactly when every pair of the filter equals
  the record's property. The record \<open>nodeless_device\<close> equals every pair of the filter of
  \<open>acme_target\<close> and the loop runs to its end, but the record has no device node (and no
  serial number and no path tag): the call of line 164 builds its arguments from a null
  pointer, in readId at line 128, and the callback is not called.
\<close>

theorem invokeIfMatch_null_devnode:
  "properties acme_target = [(''ID_BUS'', ''usb''), (''ID_VENDOR'', ''Acme''), (''ID_MODEL'', ''[null]'')] \<and>
   property_or_null (Some nodeless_device) ''ID_BUS'' = ''usb'' \<and>
   property_or_null (Some nodeless_device) ''ID_VENDOR'' = ''Acme'' \<and>
   property_or_null (Some nodeless_device) ''ID_MODEL'' = ''[null]'' \<and>
   matched (filter_loop (subsystem acme_target) (properties acme_target) (Some nodeless_device)) \<and>
   invokeIfMatch acme_target evil_observer (Some 0) (Some nodeless_device) = Inl NullString"
  by (simp add: invokeIfMatch_def filter_loop.simps Let_def property_or_null_def
      udev_device_get_property_value_def udev_device_get_devnode_def
      acme_target_def evil_observer_def nodeless_device_def)

text \<open>
  C7: when the loop fails at a pair, it writes one line to the log, naming the property,
  its actual value and the expected value, unless the property is ID\_BUS or
  ID\_USB\_INTERFACE\_NUM; for these two names nothing is written.
\<close>

theorem mismatch_logged_unless_suppressed:
  assumes "properties td = pre @ (name, expected) # rest"
    and "\<forall>(n, v) \<in> set pre. property_or_null dev n = v"
    and "property_or_null dev name \<noteq> expected"
  shows "(name \<noteq> ''ID_BUS'' \<and> name \<noteq> ''ID_USB_INTERFACE_NUM'' \<longrightarrow>
            invokeIfMatch td obs callback dev =
              Inr [Log (''Ignoring '' @ subsystem td @ '' device event as '' @ name @ '' is ''
                          @ property_or_null dev name @ '', but target device has '' @ expected)]) \<and>
         (name = ''ID_BUS'' \<or> name = ''ID_USB_INTERFACE_NUM'' \<longrightarrow>
            invokeIfMatch td obs callback dev = Inr [])"
  unfolding invokeIfMatch_first_mismatch(2) [OF assms] by simp

theorem mismatch_logged_unless_suppressed_witness:
  "invokeIfMatch acme_target evil_observer (Some 0) (Some other_device)
     = Inr [Log ''Ignoring tty device event as ID_VENDOR is OtherCo, but target device has Acme''] \<and>
   invokeIfMatch acme_target evil_observer (Some 0) (Some serial_console) = Inr []"
proof -
  note defs = acme_target_def evil_observer_def serial_console_def other_device_def
    property_or_null_def udev_device_get_property_value_def
  have F1: "properties acme_target = [(''ID_BUS'', ''usb'')] @ (''ID_VENDOR'', ''Acme'') # [(''ID_MODEL'', ''[null]'')]"
    by (simp add: defs)
  have pre1: "\<forall>(n, v) \<in> set [(''ID_BUS'', ''usb'')]. property_or_null (Some other_device) n = v"
    by (simp add: defs)
  have ne1: "property_or_null (Some other_device) ''ID_VENDOR'' \<noteq> ''Acme''"
    by (simp add: defs)
  have F2: "properties acme_target = [] @ (''ID_BUS'', ''usb'') # [(''ID_VENDOR'', ''Acme''), (''ID_MODEL'', ''[null]'')]"
    by (simp add: defs)
  have pre2: "\<forall>(n, v) \<in> set []. property_or_null (Some serial_console) n = v"
    by simp
  have ne2: "property_or_null (Some serial_console) ''ID_BUS'' \<noteq> ''usb''"
    by (simp add: defs)
  from mismatch_logged_unless_suppressed [OF F1 pre1 ne1, of evil_observer "Some 0"]
  have a: "invokeIfMatch acme_target evil_observer (Some 0) (Some other_device)
     = Inr [Log ''Ignoring tty device event as ID_VENDOR is OtherCo, but target device has Acme'']"
    by (simp add: defs)
  from mismatch_logged_unless_suppressed [OF F2 pre2 ne2, of evil_observer "Some 0"]
  have b: "invokeIfMatch acme_target evil_observer (Some 0) (Some serial_console) = Inr []"
    by simp
  from a b show ?thesis by (intro conjI)
qed

subsection \<open>handleDeviceEvent and the completion handler\<close>

lemma handleDeviceEvent_no_action:
  "udev_device_get_action dev = None \<Longrightarrow> handleDeviceEvent td obs dev = Inr []"
  by (simp add: handleDeviceEvent_def)

lemma udev_monitor_receive_device_frame:
  assumes "udev_monitor_receive_device s = (dev, s')"
  shows "closed s' = closed s" and "loop s' = loop s" and "effects s' = effects s"
    and "failure s' = failure s"
  using assms
  by (auto simp: udev_monitor_receive_device_def split: if_splits list.splits)

lemma udev_monitor_receive_device_closed:
  "closed s \<Longrightarrow> udev_monitor_receive_device s = (None, s)"
  by (simp add: udev_monitor_receive_device_def)

lemma receiveEvent_handler_bad_file_descriptor:
  "receiveEvent_handler td obs bad_file_descriptor s = s\<lparr>loop := Terminated\<rparr>"
  by (simp add: receiveEvent_handler_def)

text \<open>
  C6: an event taken from the monitor whose action is absent, or is neither \<open>add\<close> nor
  \<open>remove\<close>, causes no callback and no log line, and the handler arms the next wait: the
  state after the handler is the state after taking the event, with a wait outstanding
  and the effects unchanged. A null record from the monitor has no action and is covered.
\<close>

theorem handleDeviceEvent_drops_other_actions:
  assumes "udev_device_get_action dev = None \<or>
           (\<exists>act. udev_device_get_action dev = Some act \<and> act \<noteq> ''add'' \<and> act \<noteq> ''remove'')"
    and "ec \<noteq> bad_file_descriptor"
    and "udev_monitor_receive_device s = (dev, s')"
  shows "handleDeviceEvent td obs dev = Inr [] \<and>
         receiveEvent_handler td obs ec s = s'\<lparr>loop := Armed\<rparr> \<and>
         effects (receiveEvent_handler td obs ec s) = effects s"
proof -
  from assms(1) have h: "handleDeviceEvent td obs dev = Inr []"
    by (auto simp: handleDeviceEvent_def)
  with assms(2,3) have r: "receiveEvent_handler td obs ec s = s'\<lparr>loop := Armed\<rparr>"
    by (simp add: receiveEvent_handler_def)
  with udev_monitor_receive_device_frame(3) [OF assms(3)]
  have "effects (receiveEvent_handler td obs ec s) = effects s" by simp
  with h r show ?thesis by (intro conjI)
qed


theorem handleDeviceEvent_drops_other_actions_witness:
  "handleDeviceEvent acme_target evil_observer (Some change_event) = Inr [] \<and>
   receiveEvent_handler acme_target evil_observer success (waiting_state\<lparr>pending := [change_event]\<rparr>)
     = waiting_state\<lparr>pending := []\<rparr> \<and>
   handleDeviceEvent acme_target evil_observer None = Inr [] \<and>
   receiveEvent_handler acme_target evil_observer success (waiting_state\<lparr>pending := []\<rparr>)
     = waiting_state\<lparr>pending := []\<rparr>"
proof -
  have a: "udev_device_get_action (Some change_event) = None \<or>
           (\<exists>act. udev_device_get_action (Some change_event) = Some act \<and> act \<noteq> ''add'' \<and> act \<noteq> ''remove'')"
    by (simp add: udev_device_get_action_def change_event_def)
  have b: "udev_device_get_action None = None \<or>
           (\<exists>act. udev_device_get_action None = Some act \<and> act \<noteq> ''add'' \<and> act \<noteq> ''remove'')"
    by (simp add: udev_device_get_action_def)
  have e: "success \<noteq> bad_file_descriptor" by simp
  have r1: "udev_monitor_receive_device (waiting_state\<lparr>pending := [change_event]\<rparr>)
              = (Some change_event, waiting_state\<lparr>pending := []\<rparr>)"
    by (simp add: udev_monitor_receive_device_def waiting_state_def)
  have r2: "udev_monitor_receive_device (waiting_state\<lparr>pending := []\<rparr>)
              = (None, waiting_state\<lparr>pending := []\<rparr>)"
    by (simp add: udev_monitor_receive_device_def waiting_state_def)
  have arm: "waiting_state\<lparr>pending := [], loop := Armed\<rparr> = waiting_state\<lparr>pending := []\<rparr>"
    by (simp add: waiting_state_def)
  from handleDeviceEvent_drops_other_actions [OF a e r1, of acme_target evil_observer]
    handleDeviceEvent_drops_other_actions [OF b e r2, of acme_target evil_observer]
  show ?thesis unfolding arm by blast
qed

subsection \<open>After stop\<close>

lemma reactor_step_closed:
  assumes "closed s"
  shows "closed (reactor_step td obs s a)" and "effects (reactor_step td obs s a) = effects s"
  using assms
  by (cases a; simp add: stop_def async_read_some_def receiveEvent_handler_bad_file_descriptor)+

lemma reactor_run_closed:
  "closed s \<Longrightarrow>
   closed (reactor_run td obs s later) \<and> effects (reactor_run td obs s later) = effects s"
proof (induction later arbitrary: s)
  case Nil
  then show ?case by simp
next
  case (Cons a later)
  from Cons.prems have "closed (reactor_step td obs s a)"
    by (rule reactor_step_closed)
  from Cons.IH [OF this] reactor_step_closed(2) [OF Cons.prems, of td obs a]
  show ?case by simp
qed

lemma reactor_step_Complete_closed:
  assumes "closed s"
  shows "reactor_step td obs s (Complete ec) = s\<lparr>loop := Terminated\<rparr>"
proof (cases "loop s")
  case Armed
  with assms show ?thesis
    by (simp add: async_read_some_def receiveEvent_handler_bad_file_descriptor)
next
  case Terminated
  then have "s\<lparr>loop := Terminated\<rparr> = s" by simp
  with Terminated show ?thesis by simp
qed

lemma reactor_step_Terminated:
  "loop s = Terminated \<Longrightarrow> loop (reactor_step td obs s a) = Terminated"
  by (cases a) (simp_all add: stop_def)

lemma reactor_run_Terminated:
  "loop s = Terminated \<Longrightarrow> loop (reactor_run td obs s later) = Terminated"
  by (induction later arbitrary: s) (simp_all add: reactor_step_Terminated)

lemma reactor_run_append:
  "reactor_run td obs s (before @ later) = reactor_run td obs (reactor_run td obs s before) later"
  by (induction before arbitrary: s) simp_all

text \<open>
  C8: after stop has been called, nothing is called or logged any more, whatever events
  were pending in the channel or arrive later. The next wait to resolve, the pending one
  included, ends the loop: its handler calls and logs nothing, takes no event from the
  channel and arms no wait. From then on the loop stays ended, whatever follows.
\<close>

theorem no_callback_after_stop:
  "effects (reactor_run td obs s (before @ Stop # later)) = effects (reactor_run td obs s before) \<and>
   reactor_step td obs (stop s) (Complete ec) = (stop s)\<lparr>loop := Terminated\<rparr> \<and>
   pending (reactor_step td obs (stop s) (Complete ec)) = pending s \<and>
   loop (reactor_run td obs s (before @ Stop # waiting @ Complete ec # later)) = Terminated"
proof (intro conjI)
  let ?s = "reactor_run td obs s before"
  have c: "closed (stop t)" and e: "effects (stop t) = effects t"
    and p: "pending (stop t) = pending t" for t
    by (simp_all add: stop_def)
  have "reactor_run td obs s (before @ Stop # later) = reactor_run td obs (stop ?s) later"
    by (simp add: reactor_run_append)
  with reactor_run_closed [OF c, of td obs ?s later] e [of ?s]
  show "effects (reactor_run td obs s (before @ Stop # later)) = effects ?s"
    by simp
  show step: "reactor_step td obs (stop s) (Complete ec) = (stop s)\<lparr>loop := Terminated\<rparr>"
    by (rule reactor_step_Complete_closed [OF c])
  show "pending (reactor_step td obs (stop s) (Complete ec)) = pending s"
    unfolding step by (simp add: p)
  let ?w = "reactor_run td obs (stop ?s) waiting"
  have "closed ?w"
    using reactor_run_closed [OF c, of td obs ?s waiting] by simp
  then have "loop (reactor_step td obs ?w (Complete ec)) = Terminated"
    by (simp add: reactor_step_Complete_closed del: reactor_step.simps)
  then have "loop (reactor_run td obs (reactor_step td obs ?w (Complete ec)) later) = Terminated"
    by (rule reactor_run_Terminated)
  moreover have "reactor_run td obs s (before @ Stop # waiting @ Complete ec # later)
      = reactor_run td obs (reactor_step td obs ?w (Complete ec)) later"
    by (simp add: reactor_run_append)
  ultimately show "loop (reactor_run td obs s (before @ Stop # waiting @ Complete ec # later)) = Terminated"
    by simp
qed

theorem no_callback_after_stop_witness:
  "effects (reactor_run acme_target evil_observer waiting_state [Complete success])
     = [Invoke 0 ''/dev/ttyUSB0'' ''ABC123''] \<and>
   effects (reactor_run acme_target evil_observer waiting_state
              [Stop, Complete success, Arrive serial_device, Complete success]) = [] \<and>
   reactor_step acme_target evil_observer (stop waiting_state) (Complete success)
     = \<lparr>closed = True, pending = [serial_device], loop = Terminated, effects = [], failure = None\<rparr> \<and>
   loop (reactor_run acme_target evil_observer waiting_state
           [Stop, Arrive serial_device, Complete success, Complete success,
            Arrive serial_device, Complete success]) = Terminated"
proof -
  have a: "effects (reactor_run acme_target evil_observer waiting_state [Complete success])
     = [Invoke 0 ''/dev/ttyUSB0'' ''ABC123'']"
    by (simp add: waiting_state_def async_read_some_def receiveEvent_handler_def
        udev_monitor_receive_device_def
        handleDeviceEvent_def invokeIfMatch_def filter_loop.simps Let_def property_or_null_def
        readId_def udev_device_get_action_def udev_device_get_property_value_def
        udev_device_get_devnode_def acme_target_def evil_observer_def serial_device_def)
  note after = no_callback_after_stop
    [where td = acme_target and obs = evil_observer and s = waiting_state and before = "[]"
       and later = "[Complete success, Arrive serial_device, Complete success]"
       and ec = success and waiting = "[Arrive serial_device]"]
  have e: "effects waiting_state = []"
    by (simp add: waiting_state_def)
  have st: "(stop waiting_state)\<lparr>loop := Terminated\<rparr>
      = \<lparr>closed = True, pending = [serial_device], loop = Terminated, effects = [], failure = None\<rparr>"
    by (simp add: waiting_state_def stop_def)
  from after [THEN conjunct1]
  have "effects (reactor_run acme_target evil_observer waiting_state
              [Stop, Complete success, Arrive serial_device, Complete success])
          = effects waiting_state"
    by (simp only: append_Nil reactor_run.simps(1))
  with e have b: "effects (reactor_run acme_target evil_observer waiting_state
              [Stop, Complete success, Arrive serial_device, Complete success]) = []"
    by (simp only:)
  from after [THEN conjunct2, THEN conjunct1]
  have c: "reactor_step acme_target evil_observer (stop waiting_state) (Complete success)
     = \<lparr>closed = True, pending = [serial_device], loop = Terminated, effects = [], failure = None\<rparr>"
    by (simp only: st)
  from after [THEN conjunct2, THEN conjunct2, THEN conjunct2]
  have d: "loop (reactor_run acme_target evil_observer waiting_state
           [Stop, Arrive serial_device, Complete success, Complete success,
            Arrive serial_device, Complete success]) = Terminated"
    by (simp only: append_Nil append_Cons)
  from a b c d show ?thesis by (intro conjI)
qed

end
